theory Spec2Isabelle
  imports Main
begin

section \<open>Python values used by \<open>imaging/png.py\<close>\<close>

text \<open>
  The module is Python 2: a \<open>str\<close> and a \<open>bytearray\<close> are sequences of bytes, and
  a HOL \<open>char\<close> is one byte, so both are modelled as \<open>string\<close>. Python integers are
  unbounded and are modelled as \<open>int\<close>. The exceptions the modelled code can meet are
  the constructors of \<open>exn\<close>: \<open>ValueError\<close> (mmap: empty file, seek out of range),
  \<open>StructError\<close> (\<open>struct.error\<close>: unpack of a string that is not 4 bytes long),
  \<open>AssertionError\<close> (the strict-mode \<open>assert\<close>) and \<open>AttributeError\<close> (a method
  call on \<open>self.mmap\<close> while it is still \<open>None\<close>).
\<close>

type_synonym bytes = string

datatype exn = ValueError | StructError | AssertionError | AttributeError

subsection \<open>The \<open>mmap\<close> object\<close>

text \<open>
  A read-only memory map is its contents and its position. The methods follow CPython's
  \<open>mmapmodule.c\<close>: mapping an empty file raises \<open>ValueError\<close>; \<open>seek\<close> raises
  \<open>ValueError\<close> when the target is negative or beyond the size and leaves the position
  alone then; \<open>read\<close> never raises, it silently shortens a request that reaches beyond
  the end to the bytes that remain and advances the position by what it returned.
\<close>

record mmap_obj =
  m_data :: bytes
  m_pos :: nat

definition mmap_new :: "bytes \<Rightarrow> exn + mmap_obj" where
  "mmap_new contents =
     (if contents = [] then Inl ValueError
      else Inr \<lparr>m_data = contents, m_pos = 0\<rparr>)"

definition mmap_size :: "mmap_obj \<Rightarrow> nat" where
  "mmap_size m = length (m_data m)"

definition mmap_tell :: "mmap_obj \<Rightarrow> nat" where
  "mmap_tell m = m_pos m"

definition mmap_seek :: "mmap_obj \<Rightarrow> int \<Rightarrow> exn + mmap_obj" where
  "mmap_seek m dist =
     (if dist < 0 \<or> int (mmap_size m) < dist then Inl ValueError
      else Inr (m\<lparr>m_pos := nat dist\<rparr>))"

definition mmap_read :: "mmap_obj \<Rightarrow> int \<Rightarrow> bytes \<times> mmap_obj" where
  "mmap_read m num_bytes =
     (let n = int (mmap_size m) - int (m_pos m);
          k = (if num_bytes < 0 \<or> n < num_bytes then n else num_bytes)
      in (take (nat k) (drop (m_pos m) (m_data m)), m\<lparr>m_pos := m_pos m + nat k\<rparr>))"

subsection \<open>\<open>struct.unpack('>I', s)[0]\<close>\<close>

text \<open>Four bytes, most significant first; any other length raises \<open>struct.error\<close>.\<close>

definition unpack_I :: "bytes \<Rightarrow> exn + int" where
  "unpack_I s =
     (case s of
        [a, b, c, d] \<Rightarrow>
          Inr (of_char a * 16777216 + of_char b * 65536 + of_char c * 256 + of_char d)
      | _ \<Rightarrow> Inl StructError)"

section \<open>The class \<open>PngFile\<close>\<close>

subsection \<open>Class constants\<close>

definition valid_signature :: bytes where
  "valid_signature = CHR 0x89 # ''PNG'' @ [CHR 0x0D, CHR 0x0A, CHR 0x1A, CHR 0x0A]"

definition critical_chunks :: "bytes list" where
  "critical_chunks = [''IHDR'', ''PLTE'', ''IDAT'', ''IEND'']"

definition ancillary_chunks :: "bytes list" where
  "ancillary_chunks =
     [''bKGD'', ''cHRM'', ''gAMA'', ''hIST'', ''iCCP'', ''iTXt'', ''pHYs'', ''sBIT'',
      ''sPLT'', ''sRGB'', ''sTER'', ''tEXt'', ''tIME'', ''tRNS'', ''zTXt'']"

definition potential_chunks :: "bytes list" where
  "potential_chunks = critical_chunks @ ancillary_chunks"

subsection \<open>Objects\<close>

text \<open>
  \<open>PngChunk\<close> is the inner class; a chunk that \<open>extract_chunk\<close> returns has all five
  attributes assigned. \<open>PngFile\<close> holds the attributes \<open>__init__\<close> creates; those that
  start as \<open>None\<close> are options. An entry of \<open>chunks\<close> is whatever \<open>extract_chunk\<close>
  returned: a chunk or \<open>None\<close>. The fields \<open>length\<close>, \<open>type\<close>, \<open>data\<close> and
  \<open>size\<close> carry a suffix to keep HOL's constants of these names.
\<close>

record PngChunk =
  offset :: int
  length_c :: int
  type_c :: bytes
  data_c :: bytes
  crc_claim :: bytes

record PngFile =
  strict :: bool
  mmap :: "mmap_obj option"
  raw :: "bytes option"
  size_f :: "nat option"
  file_header :: "bytes option"
  chunks :: "PngChunk option list"

definition init :: "bool \<Rightarrow> PngFile" where
  "init strict_arg =
     \<lparr>strict = strict_arg, mmap = None, raw = None, size_f = None,
      file_header = None, chunks = []\<rparr>"

subsection \<open>\<open>load_from_file\<close>\<close>

text \<open>
  The file system is outside the model: the argument is the contents of the file at
  \<open>path\<close>. The slice \<open>self.raw[:8]\<close> never raises; it is \<open>take 8\<close>.
\<close>

definition load_from_file :: "PngFile \<Rightarrow> bytes \<Rightarrow> exn + PngFile" where
  "load_from_file self contents =
     (case mmap_new contents of
        Inl e \<Rightarrow> Inl e
      | Inr m \<Rightarrow>
          (let sz = mmap_size m;
               (r, m1) = mmap_read m (int sz)
           in case mmap_seek m1 0 of
                Inl e \<Rightarrow> Inl e
              | Inr m2 \<Rightarrow>
                  Inr (self\<lparr>mmap := Some m2, size_f := Some sz, raw := Some r,
                            file_header := Some (take 8 r)\<rparr>)))"

subsection \<open>\<open>validate_signature\<close>\<close>

text \<open>
  The comparison of a \<open>bytearray\<close> with a \<open>bytearray\<close> or with \<open>None\<close> does not
  raise, and the source catches every exception around it, so the result is a plain
  boolean.
\<close>

definition validate_signature :: "PngFile \<Rightarrow> bool" where
  "validate_signature self =
     (if Some valid_signature = file_header self then True else False)"

subsection \<open>\<open>extract_chunk\<close>\<close>

text \<open>
  \<open>extract_body\<close> is the body of the \<open>try\<close> block on the memory map: the result is
  the exception raised or the chunk built, with the map as the reads left it. The
  \<open>assert\<close> is modelled as executed (the interpreter runs without \<open>-O\<close>), and the
  declared length, below \<open>2 ^ 32\<close>, as a count that \<open>read\<close> accepts (a 64-bit build).
\<close>

definition extract_body :: "bool \<Rightarrow> mmap_obj \<Rightarrow> int \<Rightarrow> (exn + PngChunk) \<times> mmap_obj" where
  "extract_body strict_flag m chunk_offset =
     (case mmap_seek m chunk_offset of
        Inl e \<Rightarrow> (Inl e, m)
      | Inr m1 \<Rightarrow>
          (let (lenb, m2) = mmap_read m1 4 in
           case unpack_I lenb of
             Inl e \<Rightarrow> (Inl e, m2)
           | Inr len \<Rightarrow>
               (let (ty, m3) = mmap_read m2 4 in
                if strict_flag \<and> ty \<notin> set potential_chunks then (Inl AssertionError, m3)
                else
                  (let (d, m4) = mmap_read m3 len;
                       (crc, m5) = mmap_read m4 4
                   in (Inr \<lparr>offset = chunk_offset, length_c = len, type_c = ty,
                             data_c = d, crc_claim = crc\<rparr>, m5)))))"

text \<open>
  The whole method. The result is \<open>Inl e\<close> when the call raises \<open>e\<close>, \<open>Inr None\<close> when
  it returns \<open>None\<close> and \<open>Inr (Some c)\<close> when it returns the chunk \<open>c\<close>. The \<open>finally\<close>
  clause runs on every path; an exception it raises replaces the pending result. With
  \<open>self.mmap\<close> still \<open>None\<close> every method call on it raises \<open>AttributeError\<close>.
\<close>

definition extract_chunk :: "PngFile \<Rightarrow> int \<Rightarrow> bool \<Rightarrow> (exn + PngChunk option) \<times> PngFile" where
  "extract_chunk self chunk_offset reset_pos =
     (case mmap self of
        None \<Rightarrow>
          (if reset_pos then (Inl AttributeError, self)
           else if strict self then (Inl AttributeError, self)
           else (Inr None, self))
      | Some m \<Rightarrow>
          (let (r, m1) = extract_body (strict self) m chunk_offset;
               pending = (case r of
                            Inl e \<Rightarrow> (if strict self then Inl e else Inr None)
                          | Inr chunk \<Rightarrow> Inr (Some chunk))
           in if reset_pos then
                (case mmap_seek m1 0 of
                   Inl e \<Rightarrow> (Inl e, self\<lparr>mmap := Some m1\<rparr>)
                 | Inr m2 \<Rightarrow> (pending, self\<lparr>mmap := Some m2\<rparr>))
              else (pending, self\<lparr>mmap := Some m1\<rparr>)))"

subsection \<open>\<open>process_chunks\<close>\<close>

text \<open>
  \<open>walk\<close> is the \<open>while\<close> loop inside the \<open>try\<close> block: it returns the exception that
  left the loop, if any, and the object as the loop left it. Every iteration that does
  not raise moves the position forward, which is the termination argument.
\<close>

definition remaining :: "PngFile \<Rightarrow> nat" where
  "remaining self = (case mmap self of None \<Rightarrow> 0 | Some m \<Rightarrow> mmap_size m - m_pos m)"

function walk :: "PngFile \<Rightarrow> exn option \<times> PngFile" where
  "walk self =
     (case mmap self of
        None \<Rightarrow> (Some AttributeError, self)
      | Some m \<Rightarrow>
          if mmap_tell m < mmap_size m then
            (case extract_chunk self (int (mmap_tell m)) False of
               (Inl e, self1) \<Rightarrow> (Some e, self1)
             | (Inr chunk, self1) \<Rightarrow> walk (self1\<lparr>chunks := chunks self1 @ [chunk]\<rparr>))
          else (None, self))"
  by pat_completeness auto

termination
proof (relation "measure remaining")
  show "wf (measure remaining)"
    by simp
next
  fix self :: PngFile and m x self1 chunk
  assume m: "mmap self = Some m" and lt: "mmap_tell m < mmap_size m"
    and x: "(x, self1) = extract_chunk self (int (mmap_tell m)) False"
  let ?b = "snd (extract_body (strict self) m (int (m_pos m)))"
  let ?m2 = "snd (mmap_read m 4)"
  let ?m3 = "snd (mmap_read ?m2 4)"
  have mono: "m_pos a \<le> m_pos (snd (mmap_read a k))" for a k
    by (simp add: mmap_read_def Let_def)
  have keep: "mmap_size (snd (mmap_read a k)) = mmap_size a" for a k
    by (simp add: mmap_read_def mmap_size_def Let_def)
  have seek: "mmap_seek m (int (m_pos m)) = Inr m"
    using lt by (simp add: mmap_seek_def mmap_tell_def)
  have first: "m_pos m < m_pos ?m2"
    using lt by (auto simp: mmap_read_def mmap_tell_def Let_def)
  have rest: "m_pos ?m2 \<le> m_pos (snd (mmap_read (snd (mmap_read ?m3 k)) 4))" for k
    using mono [of ?m2 4] mono [of ?m3 k] mono [of "snd (mmap_read ?m3 k)" 4] by linarith
  have later: "m_pos ?m2 \<le> m_pos ?b"
    using mono [of ?m2 4] rest
    by (simp add: extract_body_def seek case_prod_beta Let_def split: sum.splits)
  have size: "mmap_size ?b = mmap_size m"
    by (simp add: extract_body_def seek keep case_prod_beta Let_def split: sum.splits)
  have "self1 = snd (extract_chunk self (int (mmap_tell m)) False)"
    using x by (metis snd_conv)
  then have s1: "self1 = self\<lparr>mmap := Some ?b\<rparr>"
    using m by (simp add: extract_chunk_def mmap_tell_def case_prod_beta Let_def)
  show "(self1\<lparr>chunks := chunks self1 @ [chunk]\<rparr>, self) \<in> measure remaining"
    using lt m first later by (simp add: s1 remaining_def size mmap_tell_def)
qed

declare walk.simps [simp del]

text \<open>
  The first \<open>seek\<close> stands before the \<open>try\<close>: when it raises, neither the handler nor
  the \<open>finally\<close> clause runs. The result is \<open>Inl e\<close> when the call raises \<open>e\<close> and
  \<open>Inr b\<close> when it returns the boolean \<open>b\<close>.
\<close>

definition process_chunks :: "PngFile \<Rightarrow> (exn + bool) \<times> PngFile" where
  "process_chunks self =
     (case mmap self of
        None \<Rightarrow> (Inl AttributeError, self)
      | Some m \<Rightarrow>
          (case mmap_seek m (int (length valid_signature)) of
             Inl e \<Rightarrow> (Inl e, self)
           | Inr m1 \<Rightarrow>
               (let (r, self1) = walk (self\<lparr>mmap := Some m1\<rparr>);
                    pending = (case r of
                                 Some e \<Rightarrow>
                                   (if strict self1 then Inl e
                                    else Inr (if chunks self1 \<noteq> [] then True else False))
                               | None \<Rightarrow> Inr (if chunks self1 \<noteq> [] then True else False))
                in case mmap self1 of
                     None \<Rightarrow> (Inl AttributeError, self1)
                   | Some m2 \<Rightarrow>
                       (case mmap_seek m2 0 of
                          Inl e \<Rightarrow> (Inl e, self1)
                        | Inr m3 \<Rightarrow> (pending, self1\<lparr>mmap := Some m3\<rparr>)))))"

section \<open>Vocabulary of the properties\<close>

text \<open>
  \<open>cursor self\<close> is \<open>self.mmap.tell()\<close>, the read position that \<open>extract_chunk\<close> and
  \<open>process_chunks\<close> share; there is none before a file is loaded.
\<close>

definition cursor :: "PngFile \<Rightarrow> nat option" where
  "cursor self = map_option mmap_tell (mmap self)"

text \<open>
  \<open>loaded strict_arg contents\<close> is the object after \<open>png = PngFile(strict)\<close> and
  \<open>png.load_from_file(path)\<close>, as \<open>_test\<close> builds it; when the load raises, the object
  is as \<open>__init__\<close> left it.
\<close>

definition loaded :: "bool \<Rightarrow> bytes \<Rightarrow> PngFile" where
  "loaded strict_arg contents =
     (case load_from_file (init strict_arg) contents of
        Inl e \<Rightarrow> init strict_arg
      | Inr self \<Rightarrow> self)"

text \<open>
  \<open>contiguous_from p cs\<close>: the entries of \<open>cs\<close> are chunks laid end to end from
  position \<open>p\<close>, each starting 12 bytes and its declared length after the one before;
  only the last entry may be \<open>None\<close>.
\<close>

fun contiguous_from :: "int \<Rightarrow> PngChunk option list \<Rightarrow> bool" where
  "contiguous_from p [] = True"
| "contiguous_from p (None # cs) = (cs = [])"
| "contiguous_from p (Some c # cs) =
     (offset c = p \<and> (cs = [] \<or> contiguous_from (p + 12 + length_c c) cs))"

section \<open>Facts about the operations\<close>

text \<open>
  With the position inside the map, a read of \<open>k\<close> bytes returns the next \<open>k\<close> bytes or
  as many as remain, and the position stops at the size. From this, the \<open>try\<close> block of
  \<open>extract_chunk\<close> has three outcomes: the seek fails, the length field is short, or
  the four fields are cut out of the buffer, each as long as the buffer allows.
\<close>

subsection \<open>Reads and the length field\<close>

lemma mmap_seek_0: "mmap_seek m 0 = Inr (m\<lparr>m_pos := 0\<rparr>)"
  by (simp add: mmap_seek_def)

lemma mmap_read_closed:
  assumes "m_pos m \<le> mmap_size m" "0 \<le> k"
  shows "mmap_read m k
    = (take (nat k) (drop (m_pos m) (m_data m)),
       m\<lparr>m_pos := min (m_pos m + nat k) (mmap_size m)\<rparr>)"
  using assms by (auto simp: mmap_read_def mmap_size_def Let_def min_def)

lemma mmap_read_all:
  "mmap_read \<lparr>m_data = contents, m_pos = 0\<rparr> (int (length contents))
     = (contents, \<lparr>m_data = contents, m_pos = length contents\<rparr>)"
  by (simp add: mmap_read_def mmap_size_def Let_def)

lemma unpack_I_short: "length s \<noteq> 4 \<Longrightarrow> unpack_I s = Inl StructError"
  by (auto simp: unpack_I_def split: list.splits)

lemma unpack_I_four:
  "length s = 4 \<Longrightarrow> \<exists>n. unpack_I s = Inr n \<and> 0 \<le> n \<and> n < 4294967296"
proof -
  assume "length s = 4"
  then obtain a b c d where s: "s = [a, b, c, d]"
    by (auto simp: length_Suc_conv numeral_eq_Suc)
  have r: "(0::int) \<le> of_char x \<and> (of_char x :: int) < 256" for x
  proof -
    have a: "(0::int) \<le> of_char x mod 256"
      by (rule pos_mod_sign) simp
    have b: "(of_char x :: int) mod 256 < 256"
      by (rule pos_mod_bound) simp
    show ?thesis
      using a b unfolding of_char_mod_256 by (rule conjI)
  qed
  show ?thesis
    using r [of a] r [of b] r [of c] r [of d] by (simp add: s unpack_I_def)
qed

subsection \<open>The \<open>try\<close> block of \<open>extract_chunk\<close>\<close>


lemma extract_body_length_short:
  assumes "0 \<le> off" "off \<le> int (mmap_size m)" "int (mmap_size m) < off + 4"
  shows "extract_body st m off = (Inl StructError, m\<lparr>m_pos := mmap_size m\<rparr>)"
proof -
  have s: "mmap_seek m off = Inr (m\<lparr>m_pos := nat off\<rparr>)"
    using assms by (simp add: mmap_seek_def)
  have r: "mmap_read (m\<lparr>m_pos := nat off\<rparr>) 4
      = (take 4 (drop (nat off) (m_data m)), m\<lparr>m_pos := mmap_size m\<rparr>)"
    using assms mmap_read_closed [of "m\<lparr>m_pos := nat off\<rparr>" 4]
    by (simp add: mmap_size_def min_def)
  have "length (take 4 (drop (nat off) (m_data m))) \<noteq> 4"
    using assms by (simp add: mmap_size_def)
  then have u: "unpack_I (take 4 (drop (nat off) (m_data m))) = Inl StructError"
    by (rule unpack_I_short)
  show ?thesis
    by (simp add: extract_body_def s r u)
qed

lemma extract_body_decodes:
  assumes "0 \<le> off" "off + 4 \<le> int (mmap_size m)"
  shows "\<exists>len. unpack_I (take 4 (drop (nat off) (m_data m))) = Inr len \<and> 0 \<le> len \<and>
    extract_body st m off
      = (if st \<and> take 4 (drop (nat off + 4) (m_data m)) \<notin> set potential_chunks
         then (Inl AssertionError, m\<lparr>m_pos := min (nat off + 8) (mmap_size m)\<rparr>)
         else (Inr \<lparr>offset = off, length_c = len,
                    type_c = take 4 (drop (nat off + 4) (m_data m)),
                    data_c = take (nat len) (drop (nat off + 8) (m_data m)),
                    crc_claim = take 4 (drop (nat off + 8 + nat len) (m_data m))\<rparr>,
               m\<lparr>m_pos := min (nat off + 12 + nat len) (mmap_size m)\<rparr>))"
proof -
  let ?d = "m_data m" and ?p = "nat off" and ?z = "mmap_size m"
  have s: "mmap_seek m off = Inr (m\<lparr>m_pos := ?p\<rparr>)"
    using assms by (simp add: mmap_seek_def)
  have r1: "mmap_read (m\<lparr>m_pos := ?p\<rparr>) 4 = (take 4 (drop ?p ?d), m\<lparr>m_pos := ?p + 4\<rparr>)"
    using assms mmap_read_closed [of "m\<lparr>m_pos := ?p\<rparr>" 4]
    by (simp add: mmap_size_def min_def)
  have "length (take 4 (drop ?p ?d)) = 4"
    using assms by (simp add: mmap_size_def)
  then obtain len where u: "unpack_I (take 4 (drop ?p ?d)) = Inr len" and l: "0 \<le> len"
    using unpack_I_four by blast
  have r2: "mmap_read (m\<lparr>m_pos := ?p + 4\<rparr>) 4
      = (take 4 (drop (?p + 4) ?d), m\<lparr>m_pos := min (?p + 8) ?z\<rparr>)"
    using assms mmap_read_closed [of "m\<lparr>m_pos := ?p + 4\<rparr>" 4]
    by (simp add: mmap_size_def)
  have r3: "mmap_read (m\<lparr>m_pos := min (?p + 8) ?z\<rparr>) len
      = (take (nat len) (drop (?p + 8) ?d), m\<lparr>m_pos := min (?p + 8 + nat len) ?z\<rparr>)"
    using l mmap_read_closed [of "m\<lparr>m_pos := min (?p + 8) ?z\<rparr>" len]
    by (auto simp: mmap_size_def min_def)
  have r4: "mmap_read (m\<lparr>m_pos := min (?p + 8 + nat len) ?z\<rparr>) 4
      = (take 4 (drop (?p + 8 + nat len) ?d), m\<lparr>m_pos := min (?p + 12 + nat len) ?z\<rparr>)"
    using mmap_read_closed [of "m\<lparr>m_pos := min (?p + 8 + nat len) ?z\<rparr>" 4]
    by (auto simp: mmap_size_def min_def)
  show ?thesis
    using u l by (simp add: extract_body_def s r1 r2 r3 r4)
qed

subsection \<open>Loading\<close>

lemma load_from_file_empty: "load_from_file self [] = Inl ValueError"
  by (simp add: load_from_file_def mmap_new_def)

lemma load_from_file_nonempty:
  "contents \<noteq> [] \<Longrightarrow>
   load_from_file self contents
     = Inr (self\<lparr>mmap := Some \<lparr>m_data = contents, m_pos = 0\<rparr>,
                size_f := Some (length contents), raw := Some contents,
                file_header := Some (take 8 contents)\<rparr>)"
  by (simp add: load_from_file_def mmap_new_def mmap_size_def mmap_read_all mmap_seek_0)

lemma loaded_nonempty:
  "contents \<noteq> [] \<Longrightarrow>
   loaded strict_arg contents
     = \<lparr>strict = strict_arg, mmap = Some \<lparr>m_data = contents, m_pos = 0\<rparr>,
        raw = Some contents, size_f = Some (length contents),
        file_header = Some (take 8 contents), chunks = []\<rparr>"
  by (simp add: loaded_def load_from_file_nonempty init_def)

lemma valid_signature_bytes:
  "valid_signature
     = [CHR 0x89, CHR ''P'', CHR ''N'', CHR ''G'', CHR 0x0D, CHR 0x0A, CHR 0x1A, CHR 0x0A]"
  by (simp add: valid_signature_def)

lemma length_valid_signature: "length valid_signature = 8"
  by (simp add: valid_signature_def)

subsection \<open>One call of \<open>extract_chunk\<close>\<close>

lemma extract_chunk_loaded:
  assumes "mmap self = Some m"
  shows "extract_chunk self off rp
    = (case fst (extract_body (strict self) m off) of
         Inl e \<Rightarrow> (if strict self then Inl e else Inr None)
       | Inr chunk \<Rightarrow> Inr (Some chunk),
       self\<lparr>mmap := Some (if rp then (snd (extract_body (strict self) m off))\<lparr>m_pos := 0\<rparr>
                             else snd (extract_body (strict self) m off))\<rparr>)"
  using assms by (simp add: extract_chunk_def case_prod_beta Let_def mmap_seek_0)

lemma extract_chunk_reset_cursor:
  "mmap self = Some m \<Longrightarrow> cursor (snd (extract_chunk self off True)) = Some 0"
  by (simp add: extract_chunk_loaded cursor_def mmap_tell_def)



lemma extract_chunk_decodes:
  assumes "mmap self = Some m" "0 \<le> off" "off + 4 \<le> int (mmap_size m)"
  shows "\<exists>len. unpack_I (take 4 (drop (nat off) (m_data m))) = Inr len \<and> 0 \<le> len \<and>
    fst (extract_chunk self off rp)
      = (if strict self \<and> take 4 (drop (nat off + 4) (m_data m)) \<notin> set potential_chunks
         then Inl AssertionError
         else Inr (Some \<lparr>offset = off, length_c = len,
                    type_c = take 4 (drop (nat off + 4) (m_data m)),
                    data_c = take (nat len) (drop (nat off + 8) (m_data m)),
                    crc_claim = take 4 (drop (nat off + 8 + nat len) (m_data m))\<rparr>))"
proof -
  obtain len where u: "unpack_I (take 4 (drop (nat off) (m_data m))) = Inr len" "0 \<le> len"
    and b: "extract_body (strict self) m off
      = (if strict self \<and> take 4 (drop (nat off + 4) (m_data m)) \<notin> set potential_chunks
         then (Inl AssertionError, m\<lparr>m_pos := min (nat off + 8) (mmap_size m)\<rparr>)
         else (Inr \<lparr>offset = off, length_c = len,
                    type_c = take 4 (drop (nat off + 4) (m_data m)),
                    data_c = take (nat len) (drop (nat off + 8) (m_data m)),
                    crc_claim = take 4 (drop (nat off + 8 + nat len) (m_data m))\<rparr>,
               m\<lparr>m_pos := min (nat off + 12 + nat len) (mmap_size m)\<rparr>))"
    using extract_body_decodes [OF assms(2,3), of "strict self"] by blast
  show ?thesis
    using u by (simp add: extract_chunk_loaded [OF assms(1)] b)
qed

lemma extract_chunk_lenient_no_assertion:
  "\<not> strict self \<Longrightarrow> fst (extract_chunk self off rp) \<noteq> Inl AssertionError"
proof (cases "mmap self")
  case None
  then show ?thesis
    by (simp add: extract_chunk_def)
next
  case (Some m)
  assume "\<not> strict self"
  then show ?thesis
    by (simp add: extract_chunk_loaded [OF Some] split: sum.splits)
qed

lemma extract_chunk_step_short:
  assumes "mmap self = Some m" "m_pos m \<le> mmap_size m" "mmap_size m < m_pos m + 4"
  shows "extract_chunk self (int (m_pos m)) False
    = (if strict self then Inl StructError else Inr None,
       self\<lparr>mmap := Some (m\<lparr>m_pos := mmap_size m\<rparr>)\<rparr>)"
  using assms extract_body_length_short [of "int (m_pos m)" m "strict self"]
  by (simp add: extract_chunk_loaded)

lemma extract_chunk_step_full:
  assumes "mmap self = Some m" "m_pos m + 4 \<le> mmap_size m"
  shows "\<exists>len. 0 \<le> len \<and>
    extract_chunk self (int (m_pos m)) False
      = (if strict self \<and> take 4 (drop (m_pos m + 4) (m_data m)) \<notin> set potential_chunks
         then (Inl AssertionError,
               self\<lparr>mmap := Some (m\<lparr>m_pos := min (m_pos m + 8) (mmap_size m)\<rparr>)\<rparr>)
         else (Inr (Some \<lparr>offset = int (m_pos m), length_c = len,
                       type_c = take 4 (drop (m_pos m + 4) (m_data m)),
                       data_c = take (nat len) (drop (m_pos m + 8) (m_data m)),
                       crc_claim = take 4 (drop (m_pos m + 8 + nat len) (m_data m))\<rparr>),
               self\<lparr>mmap := Some (m\<lparr>m_pos := min (m_pos m + 12 + nat len) (mmap_size m)\<rparr>)\<rparr>))"
proof -
  have "int (m_pos m) + 4 \<le> int (mmap_size m)"
    using assms(2) by simp
  then obtain len where l: "0 \<le> len"
    and b: "extract_body (strict self) m (int (m_pos m))
      = (if strict self \<and> take 4 (drop (nat (int (m_pos m)) + 4) (m_data m)) \<notin> set potential_chunks
         then (Inl AssertionError, m\<lparr>m_pos := min (nat (int (m_pos m)) + 8) (mmap_size m)\<rparr>)
         else (Inr \<lparr>offset = int (m_pos m), length_c = len,
                    type_c = take 4 (drop (nat (int (m_pos m)) + 4) (m_data m)),
                    data_c = take (nat len) (drop (nat (int (m_pos m)) + 8) (m_data m)),
                    crc_claim = take 4 (drop (nat (int (m_pos m)) + 8 + nat len) (m_data m))\<rparr>,
               m\<lparr>m_pos := min (nat (int (m_pos m)) + 12 + nat len) (mmap_size m)\<rparr>))"
    using extract_body_decodes [of "int (m_pos m)" m "strict self"] by auto
  show ?thesis
    using l by (intro exI [of _ len]) (simp add: extract_chunk_loaded [OF assms(1)] b)
qed

lemma extract_chunk_None_short:
  assumes "mmap self = Some m" "m_pos m < mmap_size m"
    "fst (extract_chunk self (int (m_pos m)) False) = Inr None"
  shows "\<not> strict self \<and> mmap_size m < m_pos m + 4"
proof (cases "mmap_size m < m_pos m + 4")
  case True
  then show ?thesis
    using assms extract_chunk_step_short [of self m] by (auto split: if_splits)
next
  case False
  then have "m_pos m + 4 \<le> mmap_size m"
    by simp
  from extract_chunk_step_full [OF assms(1) this] show ?thesis
    using assms(3) by (auto split: if_splits)
qed

subsection \<open>The loop\<close>

lemma walk_done:
  "mmap self = Some m \<Longrightarrow> mmap_size m \<le> m_pos m \<Longrightarrow> walk self = (None, self)"
  by (subst walk.simps) (simp add: mmap_tell_def)

lemma walk_raise:
  "mmap self = Some m \<Longrightarrow> m_pos m < mmap_size m \<Longrightarrow>
   extract_chunk self (int (m_pos m)) False = (Inl e, self1) \<Longrightarrow> walk self = (Some e, self1)"
  by (subst walk.simps) (simp add: mmap_tell_def)

lemma walk_append:
  "mmap self = Some m \<Longrightarrow> m_pos m < mmap_size m \<Longrightarrow>
   extract_chunk self (int (m_pos m)) False = (Inr chunk, self1) \<Longrightarrow>
   walk self = walk (self1\<lparr>chunks := chunks self1 @ [chunk]\<rparr>)"
  by (subst walk.simps) (simp add: mmap_tell_def)

lemma walk_short_lenient:
  assumes "\<not> strict self" "mmap self = Some m" "m_pos m < mmap_size m"
    "mmap_size m < m_pos m + 4"
  shows "walk self
    = (None, self\<lparr>mmap := Some (m\<lparr>m_pos := mmap_size m\<rparr>), chunks := chunks self @ [None]\<rparr>)"
proof -
  let ?s1 = "self\<lparr>mmap := Some (m\<lparr>m_pos := mmap_size m\<rparr>)\<rparr>"
  have e: "extract_chunk self (int (m_pos m)) False = (Inr None, ?s1)"
    using assms by (simp add: extract_chunk_step_short)
  have "walk self = walk (?s1\<lparr>chunks := chunks ?s1 @ [None]\<rparr>)"
    using walk_append [OF assms(2,3) e] .
  also have "\<dots> = (None, ?s1\<lparr>chunks := chunks ?s1 @ [None]\<rparr>)"
    by (rule walk_done [of _ "m\<lparr>m_pos := mmap_size m\<rparr>"]) (simp_all add: mmap_size_def)
  finally show ?thesis
    by simp
qed

lemma walk_invariant:
  assumes "mmap self = Some m"
  shows "\<exists>cs q. snd (walk self) = self\<lparr>mmap := Some (m\<lparr>m_pos := q\<rparr>), chunks := chunks self @ cs\<rparr>
      \<and> contiguous_from (int (m_pos m)) cs
      \<and> (mmap_size m \<le> m_pos m \<longrightarrow> cs = [])
      \<and> (\<not> strict self \<longrightarrow> fst (walk self) = None)"
  using assms
proof (induction self arbitrary: m rule: walk.induct)
  case (1 self)
  note m = \<open>mmap self = Some m\<close>
  let ?G = "\<lambda>cs q. snd (walk self) = self\<lparr>mmap := Some (m\<lparr>m_pos := q\<rparr>), chunks := chunks self @ cs\<rparr>
      \<and> contiguous_from (int (m_pos m)) cs
      \<and> (mmap_size m \<le> m_pos m \<longrightarrow> cs = [])
      \<and> (\<not> strict self \<longrightarrow> fst (walk self) = None)"
  show ?case
  proof (cases "m_pos m < mmap_size m")
    case False
    then have "walk self = (None, self)"
      using walk_done [OF m] by simp
    then have "?G [] (m_pos m)"
      using m by simp
    then show ?thesis by blast
  next
    case lt: True
    show ?thesis
    proof (cases "mmap_size m < m_pos m + 4")
      case True
      let ?s1 = "self\<lparr>mmap := Some (m\<lparr>m_pos := mmap_size m\<rparr>)\<rparr>"
      have e: "extract_chunk self (int (m_pos m)) False
          = (if strict self then Inl StructError else Inr None, ?s1)"
        using m lt True by (simp add: extract_chunk_step_short)
      show ?thesis
      proof (cases "strict self")
        case True
        then have "walk self = (Some StructError, ?s1)"
          using walk_raise [OF m lt, of StructError ?s1] e by simp
        then have "?G [] (mmap_size m)"
          using lt True by simp
        then show ?thesis by blast
      next
        case False
        then have "walk self = walk (?s1\<lparr>chunks := chunks ?s1 @ [None]\<rparr>)"
          using walk_append [OF m lt, of None ?s1] e by simp
        also have "\<dots> = (None, ?s1\<lparr>chunks := chunks ?s1 @ [None]\<rparr>)"
          by (rule walk_done [of _ "m\<lparr>m_pos := mmap_size m\<rparr>"]) (simp_all add: mmap_size_def)
        finally have "?G [None] (mmap_size m)"
          using lt by simp
        then show ?thesis by blast
      qed
    next
      case False
      then have full: "m_pos m + 4 \<le> mmap_size m"
        by simp
      obtain len where len: "0 \<le> len"
        and e: "extract_chunk self (int (m_pos m)) False
          = (if strict self \<and> take 4 (drop (m_pos m + 4) (m_data m)) \<notin> set potential_chunks
             then (Inl AssertionError,
                   self\<lparr>mmap := Some (m\<lparr>m_pos := min (m_pos m + 8) (mmap_size m)\<rparr>)\<rparr>)
             else (Inr (Some \<lparr>offset = int (m_pos m), length_c = len,
                       type_c = take 4 (drop (m_pos m + 4) (m_data m)),
                       data_c = take (nat len) (drop (m_pos m + 8) (m_data m)),
                       crc_claim = take 4 (drop (m_pos m + 8 + nat len) (m_data m))\<rparr>),
                   self\<lparr>mmap := Some (m\<lparr>m_pos := min (m_pos m + 12 + nat len) (mmap_size m)\<rparr>)\<rparr>))"
        using extract_chunk_step_full [OF m full] by blast
      show ?thesis
      proof (cases "strict self \<and> take 4 (drop (m_pos m + 4) (m_data m)) \<notin> set potential_chunks")
        case True
        let ?s1 = "self\<lparr>mmap := Some (m\<lparr>m_pos := min (m_pos m + 8) (mmap_size m)\<rparr>)\<rparr>"
        have "walk self = (Some AssertionError, ?s1)"
          using walk_raise [OF m lt, of AssertionError ?s1] e True by simp
        then have "?G [] (min (m_pos m + 8) (mmap_size m))"
          using lt True by simp
        then show ?thesis by blast
      next
        case ok: False
        let ?c = "\<lparr>offset = int (m_pos m), length_c = len,
                       type_c = take 4 (drop (m_pos m + 4) (m_data m)),
                       data_c = take (nat len) (drop (m_pos m + 8) (m_data m)),
                       crc_claim = take 4 (drop (m_pos m + 8 + nat len) (m_data m))\<rparr>"
        let ?q = "min (m_pos m + 12 + nat len) (mmap_size m)"
        let ?m1 = "m\<lparr>m_pos := ?q\<rparr>"
        let ?s1 = "self\<lparr>mmap := Some ?m1\<rparr>"
        let ?s2 = "?s1\<lparr>chunks := chunks ?s1 @ [Some ?c]\<rparr>"
        have e1: "extract_chunk self (int (m_pos m)) False = (Inr (Some ?c), ?s1)"
          using e ok by simp
        have w: "walk self = walk ?s2"
          using walk_append [OF m lt e1] .
        have lt': "mmap_tell m < mmap_size m"
          using lt by (simp add: mmap_tell_def)
        have e2: "(Inr (Some ?c), ?s1) = extract_chunk self (int (mmap_tell m)) False"
          using e1 by (simp add: mmap_tell_def)
        have m2: "mmap ?s2 = Some ?m1"
          by simp
        obtain cs q where ih: "snd (walk ?s2) = ?s2\<lparr>mmap := Some (?m1\<lparr>m_pos := q\<rparr>), chunks := chunks ?s2 @ cs\<rparr>"
          and c: "contiguous_from (int (m_pos ?m1)) cs"
          and z: "mmap_size ?m1 \<le> m_pos ?m1 \<longrightarrow> cs = []"
          and n: "\<not> strict ?s2 \<longrightarrow> fst (walk ?s2) = None"
          using "1.IH" [OF m lt' e2 refl m2] by blast
        have c': "cs = [] \<or> contiguous_from (int (m_pos m) + 12 + len) cs"
        proof (cases "m_pos m + 12 + nat len < mmap_size m")
          case True
          then have "int ?q = int (m_pos m) + 12 + len"
            using len by simp
          then show ?thesis
            using c by simp
        next
          case False
          then show ?thesis
            using z by (simp add: mmap_size_def)
        qed
        have "?G (Some ?c # cs) q"
          using w ih c' n lt by simp
        then show ?thesis by blast
      qed
    qed
  qed
qed

subsection \<open>\<open>process_chunks\<close> as a whole\<close>

lemma process_chunks_unloaded:
  "mmap self = None \<Longrightarrow> process_chunks self = (Inl AttributeError, self)"
  by (simp add: process_chunks_def)

lemma process_chunks_short:
  "mmap self = Some m \<Longrightarrow> mmap_size m < 8 \<Longrightarrow> process_chunks self = (Inl ValueError, self)"
  by (simp add: process_chunks_def mmap_seek_def length_valid_signature)

lemma process_chunks_loaded:
  assumes "mmap self = Some m" "8 \<le> mmap_size m"
  shows "\<exists>cs. snd (process_chunks self)
        = self\<lparr>mmap := Some (m\<lparr>m_pos := 0\<rparr>), chunks := chunks self @ cs\<rparr>
      \<and> contiguous_from 8 cs
      \<and> (\<not> strict self \<longrightarrow> fst (process_chunks self) = Inr (chunks self @ cs \<noteq> []))
      \<and> (\<forall>b. fst (process_chunks self) = Inr b \<longrightarrow> b = (chunks self @ cs \<noteq> []))"
proof -
  let ?m8 = "m\<lparr>m_pos := 8\<rparr>"
  let ?s8 = "self\<lparr>mmap := Some ?m8\<rparr>"
  have s: "mmap_seek m (int (length valid_signature)) = Inr ?m8"
    using assms(2) by (simp add: mmap_seek_def length_valid_signature)
  have "mmap ?s8 = Some ?m8"
    by simp
  from walk_invariant [OF this]
  obtain cs q where w: "snd (walk ?s8) = ?s8\<lparr>mmap := Some (?m8\<lparr>m_pos := q\<rparr>), chunks := chunks ?s8 @ cs\<rparr>"
    and c: "contiguous_from (int (m_pos ?m8)) cs"
    and n: "\<not> strict ?s8 \<longrightarrow> fst (walk ?s8) = None"
    by blast
  obtain r s1 where ws: "walk ?s8 = (r, s1)"
    by (cases "walk ?s8")
  have s1: "s1 = self\<lparr>mmap := Some (m\<lparr>m_pos := q\<rparr>), chunks := chunks self @ cs\<rparr>"
    using w ws by simp
  have p: "process_chunks self
      = (case r of
           Some e \<Rightarrow> (if strict self then Inl e else Inr (chunks self @ cs \<noteq> []))
         | None \<Rightarrow> Inr (chunks self @ cs \<noteq> []),
         self\<lparr>mmap := Some (m\<lparr>m_pos := 0\<rparr>), chunks := chunks self @ cs\<rparr>)"
    using assms(1) by (cases r) (simp_all add: process_chunks_def s ws s1 mmap_seek_0)
  have "\<not> strict self \<longrightarrow> r = None"
    using n ws by simp
  then show ?thesis
    using c p by (intro exI [of _ cs]) (auto split: option.splits if_splits)
qed

lemma contiguous_from_nth:
  "contiguous_from p cs \<Longrightarrow> Suc n < length cs \<Longrightarrow>
   \<exists>c. cs ! n = Some c \<and> (\<forall>d. cs ! Suc n = Some d \<longrightarrow> offset d = offset c + 12 + length_c c)"
proof (induction p cs arbitrary: n rule: contiguous_from.induct)
  case (1 p)
  then show ?case by simp
next
  case (2 p cs)
  then show ?case by simp
next
  case (3 p c cs)
  then have ne: "cs \<noteq> []" and tl: "contiguous_from (p + 12 + length_c c) cs" and o: "offset c = p"
    by auto
  show ?case
  proof (cases n)
    case 0
    obtain x xs where xs: "cs = x # xs"
      using ne by (cases cs) auto
    show ?thesis
      using tl o by (cases x) (auto simp: 0 xs)
  next
    case (Suc k)
    then show ?thesis
      using "3.IH" [OF tl, of k] "3.prems"(2) by simp
  qed
qed

lemma contiguous_from_first:
  "contiguous_from p cs \<Longrightarrow> cs \<noteq> [] \<Longrightarrow> cs ! 0 = Some c \<Longrightarrow> offset c = p"
  by (cases cs) auto

section \<open>The claims\<close>

subsection \<open>C1: reads beyond the end of the buffer\<close>




subsection \<open>C2: the result of \<open>process_chunks\<close>\<close>

text \<open>
  Claim C2 says that \<open>process_chunks\<close> returns true only when a chunk was collected. On
  the signature followed by one byte, in lenient mode, the one decode fails, the list
  holds that \<open>None\<close> and no chunk, and the call returns true.
\<close>

theorem process_chunks_true_without_chunk:
  "fst (process_chunks (loaded False (valid_signature @ [CHR 0x00]))) = Inr True
   \<and> chunks (snd (process_chunks (loaded False (valid_signature @ [CHR 0x00])))) = [None]"
  by code_simp

subsection \<open>C3: loading a short buffer\<close>

text \<open>
  Claim C3, as written: every buffer shorter than 8 bytes makes \<open>load\<close> fail. The code
  has no length check: a file of three bytes loads, and its cached header is those
  three bytes.
\<close>

theorem load_from_file_short_counterexample:
  "length ''abc'' < 8 \<and>
   load_from_file (init False) ''abc''
     = Inr \<lparr>strict = False, mmap = Some \<lparr>m_data = ''abc'', m_pos = 0\<rparr>,
            raw = Some ''abc'', size_f = Some 3, file_header = Some ''abc'', chunks = []\<rparr>"
  by (simp add: load_from_file_nonempty init_def)

text \<open>
  Claim C3, amended: \<open>load_from_file\<close> fails exactly on the empty file, which
  \<open>mmap\<close> refuses to map; every other file, those of 1 to 7 bytes included, loads, with
  the position back at 0 and the first \<open>min 8 size\<close> bytes as the cached header.
\<close>

theorem load_from_file_fails_iff_empty:
  "load_from_file self contents
     = (if contents = [] then Inl ValueError
        else Inr (self\<lparr>mmap := Some \<lparr>m_data = contents, m_pos = 0\<rparr>,
                       size_f := Some (length contents), raw := Some contents,
                       file_header := Some (take 8 contents)\<rparr>))"
  by (simp add: load_from_file_empty load_from_file_nonempty)

subsection \<open>C4: the position after \<open>extract_chunk\<close>\<close>

text \<open>
  Claim C4, as written: with \<open>reset_pos\<close> left at its default the position after
  \<open>extract_chunk\<close> is the one before the call. A caller who read the chunk at 8 with
  \<open>reset_pos=False\<close> stands at 20; the next call with the default puts the position at 0.
\<close>

theorem extract_chunk_restore_counterexample:
  "cursor (snd (extract_chunk
      (loaded False (valid_signature @ [CHR 0x00, CHR 0x00, CHR 0x00, CHR 0x00] @ ''IEND'' @ ''AB12''))
      8 False))
     = Some 20
   \<and> cursor (snd (extract_chunk
        (snd (extract_chunk
          (loaded False (valid_signature @ [CHR 0x00, CHR 0x00, CHR 0x00, CHR 0x00] @ ''IEND'' @ ''AB12''))
          8 False))
        8 True))
     = Some 0"
  by code_simp

text \<open>
  Claim C4, amended: with \<open>reset_pos\<close> enabled the position after \<open>extract_chunk\<close> is 0,
  whatever it was before and however the call ends; it equals the position before the
  call exactly when that was 0.
\<close>

theorem extract_chunk_resets_to_start:
  assumes "mmap self = Some m"
  shows "cursor (snd (extract_chunk self off True)) = Some 0
     \<and> (cursor (snd (extract_chunk self off True)) = cursor self \<longleftrightarrow> m_pos m = 0)"
  using assms extract_chunk_reset_cursor [of self m off]
  by (auto simp: cursor_def mmap_tell_def)

theorem extract_chunk_resets_to_start_witness:
  "cursor (snd (extract_chunk
        (snd (extract_chunk
          (loaded False (valid_signature @ [CHR 0x00, CHR 0x00, CHR 0x00, CHR 0x00] @ ''IEND'' @ ''AB12''))
          8 False))
        8 True))
     = Some 0
   \<and> cursor (snd (extract_chunk
          (loaded False (valid_signature @ [CHR 0x00, CHR 0x00, CHR 0x00, CHR 0x00] @ ''IEND'' @ ''AB12''))
          8 False))
     \<noteq> Some 0"
proof -
  let ?buf = "valid_signature @ [CHR 0x00, CHR 0x00, CHR 0x00, CHR 0x00] @ ''IEND'' @ ''AB12''"
  let ?s = "snd (extract_chunk (loaded False ?buf) 8 False)"
  have m: "mmap ?s = Some \<lparr>m_data = ?buf, m_pos = 20\<rparr>"
    by code_simp
  have h: "cursor ?s \<noteq> Some 0"
    by code_simp
  show ?thesis
    using conjunct1 [OF extract_chunk_resets_to_start [OF m, of 8]] h by (rule conjI)
qed

subsection \<open>C5: the strict tag check\<close>

text \<open>
  Claim C5: in strict mode a chunk whose length field was read and whose tag is not one
  of the 19 standardized tags makes \<open>extract_chunk\<close> raise the assertion's error; in
  lenient mode the call never raises that error, and with 4 bytes at the offset it
  returns a chunk that carries the tag as read, whatever it is.
\<close>

theorem extract_chunk_tag_check:
  "(strict self \<and> mmap self = Some m \<and> 0 \<le> off \<and> off + 4 \<le> int (mmap_size m) \<and>
      take 4 (drop (nat off + 4) (m_data m)) \<notin> set potential_chunks \<longrightarrow>
        fst (extract_chunk self off rp) = Inl AssertionError)
   \<and> (\<not> strict self \<longrightarrow> fst (extract_chunk self off rp) \<noteq> Inl AssertionError)
   \<and> (\<not> strict self \<and> mmap self = Some m \<and> 0 \<le> off \<and> off + 4 \<le> int (mmap_size m) \<longrightarrow>
        (\<exists>c. fst (extract_chunk self off rp) = Inr (Some c) \<and>
             type_c c = take 4 (drop (nat off + 4) (m_data m))))
   \<and> set potential_chunks
        = {''IHDR'', ''PLTE'', ''IDAT'', ''IEND'', ''bKGD'', ''cHRM'', ''gAMA'', ''hIST'',
           ''iCCP'', ''iTXt'', ''pHYs'', ''sBIT'', ''sPLT'', ''sRGB'', ''sTER'', ''tEXt'',
           ''tIME'', ''tRNS'', ''zTXt''}"
proof (intro conjI impI)
  assume a: "strict self \<and> mmap self = Some m \<and> 0 \<le> off \<and> off + 4 \<le> int (mmap_size m) \<and>
      take 4 (drop (nat off + 4) (m_data m)) \<notin> set potential_chunks"
  then show "fst (extract_chunk self off rp) = Inl AssertionError"
    using extract_chunk_decodes [of self m off rp] by auto
next
  assume "\<not> strict self"
  then show "fst (extract_chunk self off rp) \<noteq> Inl AssertionError"
    by (rule extract_chunk_lenient_no_assertion)
next
  assume a: "\<not> strict self \<and> mmap self = Some m \<and> 0 \<le> off \<and> off + 4 \<le> int (mmap_size m)"
  then show "\<exists>c. fst (extract_chunk self off rp) = Inr (Some c) \<and>
             type_c c = take 4 (drop (nat off + 4) (m_data m))"
    using extract_chunk_decodes [of self m off rp] by auto
next
  show "set potential_chunks
        = {''IHDR'', ''PLTE'', ''IDAT'', ''IEND'', ''bKGD'', ''cHRM'', ''gAMA'', ''hIST'',
           ''iCCP'', ''iTXt'', ''pHYs'', ''sBIT'', ''sPLT'', ''sRGB'', ''sTER'', ''tEXt'',
           ''tIME'', ''tRNS'', ''zTXt''}"
    by (simp add: potential_chunks_def critical_chunks_def ancillary_chunks_def)
qed

theorem extract_chunk_tag_check_witness:
  "fst (extract_chunk
      (loaded True (valid_signature @ [CHR 0x00, CHR 0x00, CHR 0x00, CHR 0x00] @ ''zzZZ'' @ ''AB12''))
      8 True)
     = Inl AssertionError
   \<and> fst (extract_chunk
      (loaded False (valid_signature @ [CHR 0x00, CHR 0x00, CHR 0x00, CHR 0x00] @ ''zzZZ'' @ ''AB12''))
      8 True)
     = Inr (Some \<lparr>offset = 8, length_c = 0, type_c = ''zzZZ'', data_c = [], crc_claim = ''AB12''\<rparr>)"
proof -
  let ?buf = "valid_signature @ [CHR 0x00, CHR 0x00, CHR 0x00, CHR 0x00] @ ''zzZZ'' @ ''AB12''"
  let ?m = "\<lparr>m_data = ?buf, m_pos = 0\<rparr>"
  have e: "fst (extract_chunk (loaded False ?buf) 8 True)
     = Inr (Some \<lparr>offset = 8, length_c = 0, type_c = ''zzZZ'', data_c = [], crc_claim = ''AB12''\<rparr>)"
    by code_simp
  have t: "strict (loaded True ?buf) \<and> mmap (loaded True ?buf) = Some ?m \<and> (0::int) \<le> 8 \<and>
      8 + 4 \<le> int (mmap_size ?m) \<and>
      take 4 (drop (nat 8 + 4) (m_data ?m)) \<notin> set potential_chunks"
    by (simp add: loaded_nonempty mmap_size_def valid_signature_def
        potential_chunks_def critical_chunks_def ancillary_chunks_def)
  show ?thesis
    using extract_chunk_tag_check [of "loaded True ?buf" ?m 8 True] t e by blast
qed

subsection \<open>C6: adjacency of the chunks of one walk\<close>

text \<open>
  Claim C6: the entries one call of \<open>process_chunks\<close> appends to the chunk list are
  laid end to end. The first one starts at 8; every entry that has a successor is a
  chunk, and a chunk that follows it starts at its offset plus 12 plus its declared
  length. This holds in both modes, also when the walk ends with an exception, and for
  an object that is not loaded or too short, where nothing is appended.
\<close>

theorem process_chunks_adjacent:
  "\<exists>cs. chunks (snd (process_chunks self)) = chunks self @ cs
     \<and> (\<forall>n. 0 < n \<and> n < length cs \<longrightarrow>
          (\<exists>c. cs ! (n - 1) = Some c \<and>
             (\<forall>d. cs ! n = Some d \<longrightarrow> offset d = offset c + 12 + length_c c)))
     \<and> (\<forall>c. cs \<noteq> [] \<and> cs ! 0 = Some c \<longrightarrow> offset c = 8)"
proof -
  let ?P = "\<lambda>cs. chunks (snd (process_chunks self)) = chunks self @ cs
     \<and> (\<forall>n. 0 < n \<and> n < length cs \<longrightarrow>
          (\<exists>c. cs ! (n - 1) = Some c \<and>
             (\<forall>d. cs ! n = Some d \<longrightarrow> offset d = offset c + 12 + length_c c)))
     \<and> (\<forall>c. cs \<noteq> [] \<and> cs ! 0 = Some c \<longrightarrow> offset c = 8)"
  show ?thesis
  proof (cases "mmap self")
    case None
    then have "?P []"
      by (simp add: process_chunks_unloaded)
    then show ?thesis by blast
  next
    case (Some m)
    show ?thesis
    proof (cases "8 \<le> mmap_size m")
      case False
      then have "?P []"
        using Some by (simp add: process_chunks_short)
      then show ?thesis by blast
    next
      case True
      from process_chunks_loaded [OF Some True]
      obtain cs where s: "snd (process_chunks self)
            = self\<lparr>mmap := Some (m\<lparr>m_pos := 0\<rparr>), chunks := chunks self @ cs\<rparr>"
        and c: "contiguous_from 8 cs"
        by blast
      have a: "\<exists>c. cs ! (n - 1) = Some c \<and>
             (\<forall>d. cs ! n = Some d \<longrightarrow> offset d = offset c + 12 + length_c c)"
        if "0 < n \<and> n < length cs" for n
        using contiguous_from_nth [OF c, of "n - 1"] that by simp
      have b: "offset x = 8" if "cs \<noteq> [] \<and> cs ! 0 = Some x" for x
        using contiguous_from_first [OF c, of x] that by simp
      have "?P cs"
        using s a b by simp
      then show ?thesis by blast
    qed
  qed
qed

theorem process_chunks_adjacent_witness:
  "chunks (snd (process_chunks (loaded True
      (valid_signature @ [CHR 0x00, CHR 0x00, CHR 0x00, CHR 0x01] @ ''IHDR'' @ ''x'' @ ''crc1''
         @ [CHR 0x00, CHR 0x00, CHR 0x00, CHR 0x00] @ ''IEND'' @ ''crc2''))))
     = [Some \<lparr>offset = 8, length_c = 1, type_c = ''IHDR'', data_c = ''x'', crc_claim = ''crc1''\<rparr>,
        Some \<lparr>offset = 21, length_c = 0, type_c = ''IEND'', data_c = [], crc_claim = ''crc2''\<rparr>]
   \<and> (21::int) = 8 + 12 + 1"
proof -
  let ?buf = "valid_signature @ [CHR 0x00, CHR 0x00, CHR 0x00, CHR 0x01] @ ''IHDR'' @ ''x'' @ ''crc1''
         @ [CHR 0x00, CHR 0x00, CHR 0x00, CHR 0x00] @ ''IEND'' @ ''crc2''"
  let ?c1 = "\<lparr>offset = 8, length_c = 1, type_c = ''IHDR'', data_c = ''x'', crc_claim = ''crc1''\<rparr>"
  have i: "chunks (loaded True ?buf) = []"
    by (simp add: loaded_nonempty)
  obtain cs where e: "chunks (snd (process_chunks (loaded True ?buf))) = chunks (loaded True ?buf) @ cs"
    and a: "\<forall>n. 0 < n \<and> n < length cs \<longrightarrow>
          (\<exists>c. cs ! (n - 1) = Some c \<and>
             (\<forall>d. cs ! n = Some d \<longrightarrow> offset d = offset c + 12 + length_c c))"
    using process_chunks_adjacent [of "loaded True ?buf"] by blast
  have v: "chunks (snd (process_chunks (loaded True ?buf)))
     = [Some ?c1,
        Some \<lparr>offset = 21, length_c = 0, type_c = ''IEND'', data_c = [], crc_claim = ''crc2''\<rparr>]"
    by code_simp
  then have cs: "cs = [Some ?c1,
        Some \<lparr>offset = 21, length_c = 0, type_c = ''IEND'', data_c = [], crc_claim = ''crc2''\<rparr>]"
    using e i by simp
  have "(21::int) = 8 + 12 + 1"
    using a [rule_format, of 1] by (simp add: cs)
  then show ?thesis
    using v by simp
qed

subsection \<open>C7: the signature\<close>

text \<open>
  Claim C7: \<open>validate_signature\<close> is true exactly when the cached header is the byte
  sequence 0x89 P N G 0x0D 0x0A 0x1A 0x0A; an absent header, a header of another length
  and a header that differs in some byte give false; after a load the header is the
  first 8 bytes of the file. The function returns a boolean on every object, so no
  exception leaves it.
\<close>

theorem validate_signature_iff_magic:
  "(validate_signature self \<longleftrightarrow>
      file_header self
        = Some [CHR 0x89, CHR ''P'', CHR ''N'', CHR ''G'', CHR 0x0D, CHR 0x0A, CHR 0x1A, CHR 0x0A])
   \<and> (file_header self = None \<longrightarrow> \<not> validate_signature self)
   \<and> (\<forall>h. file_header self = Some h \<and> length h \<noteq> 8 \<longrightarrow> \<not> validate_signature self)
   \<and> (\<forall>h i. file_header self = Some h \<and> i < 8 \<and>
          h ! i \<noteq> [CHR 0x89, CHR ''P'', CHR ''N'', CHR ''G'', CHR 0x0D, CHR 0x0A, CHR 0x1A, CHR 0x0A] ! i
          \<longrightarrow> \<not> validate_signature self)
   \<and> (\<forall>s0 contents. load_from_file s0 contents = Inr self \<longrightarrow>
          (validate_signature self \<longleftrightarrow> take 8 contents = valid_signature))"
proof (intro conjI allI impI)
  show a: "validate_signature self \<longleftrightarrow>
      file_header self
        = Some [CHR 0x89, CHR ''P'', CHR ''N'', CHR ''G'', CHR 0x0D, CHR 0x0A, CHR 0x1A, CHR 0x0A]"
    by (auto simp: validate_signature_def valid_signature_bytes)
  show "\<not> validate_signature self" if "file_header self = None"
    using that by (simp add: validate_signature_def)
  show "\<not> validate_signature self" if "file_header self = Some h \<and> length h \<noteq> 8" for h
    using that a by auto
  show "\<not> validate_signature self"
    if "file_header self = Some h \<and> i < 8 \<and>
          h ! i \<noteq> [CHR 0x89, CHR ''P'', CHR ''N'', CHR ''G'', CHR 0x0D, CHR 0x0A, CHR 0x1A, CHR 0x0A] ! i"
    for h i
    using that a by auto
  show "validate_signature self \<longleftrightarrow> take 8 contents = valid_signature"
    if "load_from_file s0 contents = Inr self" for s0 contents
  proof -
    have "contents \<noteq> []"
      using that by (auto simp: load_from_file_empty)
    then have "file_header self = Some (take 8 contents)"
      using that by (auto simp: load_from_file_nonempty)
    then show ?thesis
      by (auto simp: validate_signature_def)
  qed
qed

theorem validate_signature_iff_magic_witness:
  "validate_signature ((init False)\<lparr>file_header := Some valid_signature\<rparr>)
   \<and> \<not> validate_signature (init False)
   \<and> \<not> validate_signature ((init False)\<lparr>file_header := Some ''abc''\<rparr>)
   \<and> \<not> validate_signature ((init False)
        \<lparr>file_header := Some [CHR 0x89, CHR ''P'', CHR ''N'', CHR ''G'', CHR 0x0D, CHR 0x0A, CHR 0x1A, CHR 0x0B]\<rparr>)
   \<and> load_from_file (init False) (valid_signature @ ''xyz'')
        = Inr ((init False)\<lparr>mmap := Some \<lparr>m_data = valid_signature @ ''xyz'', m_pos = 0\<rparr>,
                size_f := Some 11, raw := Some (valid_signature @ ''xyz''),
                file_header := Some valid_signature\<rparr>)
   \<and> validate_signature ((init False)\<lparr>mmap := Some \<lparr>m_data = valid_signature @ ''xyz'', m_pos = 0\<rparr>,
                size_f := Some 11, raw := Some (valid_signature @ ''xyz''),
                file_header := Some valid_signature\<rparr>)"
proof -
  let ?s = "(init False)\<lparr>mmap := Some \<lparr>m_data = valid_signature @ ''xyz'', m_pos = 0\<rparr>,
                size_f := Some 11, raw := Some (valid_signature @ ''xyz''),
                file_header := Some valid_signature\<rparr>"
  have l: "load_from_file (init False) (valid_signature @ ''xyz'') = Inr ?s"
    by (simp add: load_from_file_nonempty valid_signature_bytes)
  show ?thesis
    using validate_signature_iff_magic [of "(init False)\<lparr>file_header := Some valid_signature\<rparr>"]
      validate_signature_iff_magic [of "init False"]
      validate_signature_iff_magic [of "(init False)\<lparr>file_header := Some ''abc''\<rparr>"]
      validate_signature_iff_magic [of "(init False)
        \<lparr>file_header := Some [CHR 0x89, CHR ''P'', CHR ''N'', CHR ''G'', CHR 0x0D, CHR 0x0A, CHR 0x1A, CHR 0x0B]\<rparr>"]
      validate_signature_iff_magic [of ?s] l
    by (simp add: init_def valid_signature_bytes)
qed

subsection \<open>C8: a walk over one empty \<open>IEND\<close> chunk\<close>

text \<open>
  Claim C8: on the 20 bytes made of the signature, a zero length, the tag \<open>IEND\<close> and
  the trailing bytes \<open>AB12\<close>, \<open>process_chunks\<close> returns true and the chunk list is the
  single chunk of length 0, type \<open>IEND\<close>, empty data and claimed checksum \<open>AB12\<close>, in
  strict and in lenient mode.
\<close>

theorem process_chunks_iend_scenario:
  "\<exists>s. load_from_file (init strict_arg)
          (valid_signature @ [CHR 0x00, CHR 0x00, CHR 0x00, CHR 0x00] @ ''IEND'' @ ''AB12'')
        = Inr s
      \<and> fst (process_chunks s) = Inr True
      \<and> chunks (snd (process_chunks s))
          = [Some \<lparr>offset = 8, length_c = 0, type_c = ''IEND'', data_c = [],
                   crc_claim = ''AB12''\<rparr>]"
proof -
  let ?buf = "valid_signature @ [CHR 0x00, CHR 0x00, CHR 0x00, CHR 0x00] @ ''IEND'' @ ''AB12''"
  let ?P = "\<lambda>b. case load_from_file (init b) ?buf of
      Inl e \<Rightarrow> False
    | Inr s \<Rightarrow> fst (process_chunks s) = Inr True
        \<and> chunks (snd (process_chunks s))
          = [Some \<lparr>offset = 8, length_c = 0, type_c = ''IEND'', data_c = [],
                   crc_claim = ''AB12''\<rparr>]"
  have t: "?P True"
    by code_simp
  have f: "?P False"
    by code_simp
  have "?P strict_arg"
    using t f by (cases strict_arg) simp_all
  then show ?thesis
    by (auto split: sum.splits)
qed

subsection \<open>C9: a failed decode in a lenient walk\<close>

text \<open>
  Claim C9: in lenient mode, with 1 to 3 bytes left at the position, \<open>extract_chunk\<close>
  returns \<open>None\<close>; whenever the call in the loop returns \<open>None\<close>, the loop appends that
  \<open>None\<close> to the chunk list and ends with the position at the end of the buffer. So on
  a fresh lenient object over a buffer of 9 to 11 bytes \<open>process_chunks\<close> returns true
  with \<open>None\<close> as the only entry of the list, no chunk having been decoded.
\<close>

theorem process_chunks_appends_None:
  "(\<not> strict self \<and> mmap self = Some m \<and> m_pos m < mmap_size m \<and> mmap_size m < m_pos m + 4 \<longrightarrow>
      extract_chunk self (int (mmap_tell m)) False
        = (Inr None, self\<lparr>mmap := Some (m\<lparr>m_pos := mmap_size m\<rparr>)\<rparr>))
   \<and> (mmap self = Some m \<and> m_pos m < mmap_size m \<and>
       fst (extract_chunk self (int (mmap_tell m)) False) = Inr None \<longrightarrow>
      walk self
        = (None, self\<lparr>mmap := Some (m\<lparr>m_pos := mmap_size m\<rparr>), chunks := chunks self @ [None]\<rparr>))
   \<and> (\<not> strict self \<and> mmap self = Some m \<and> chunks self = [] \<and>
       8 < mmap_size m \<and> mmap_size m < 12 \<longrightarrow>
      process_chunks self
        = (Inr True, self\<lparr>mmap := Some (m\<lparr>m_pos := 0\<rparr>), chunks := [None]\<rparr>))"
proof (intro conjI impI)
  assume "\<not> strict self \<and> mmap self = Some m \<and> m_pos m < mmap_size m \<and> mmap_size m < m_pos m + 4"
  then show "extract_chunk self (int (mmap_tell m)) False
        = (Inr None, self\<lparr>mmap := Some (m\<lparr>m_pos := mmap_size m\<rparr>)\<rparr>)"
    by (simp add: extract_chunk_step_short mmap_tell_def)
next
  assume a: "mmap self = Some m \<and> m_pos m < mmap_size m \<and>
       fst (extract_chunk self (int (mmap_tell m)) False) = Inr None"
  then have "\<not> strict self \<and> mmap_size m < m_pos m + 4"
    using extract_chunk_None_short [of self m] by (simp add: mmap_tell_def)
  then show "walk self
        = (None, self\<lparr>mmap := Some (m\<lparr>m_pos := mmap_size m\<rparr>), chunks := chunks self @ [None]\<rparr>)"
    using a by (simp add: walk_short_lenient)
next
  assume a: "\<not> strict self \<and> mmap self = Some m \<and> chunks self = [] \<and>
       8 < mmap_size m \<and> mmap_size m < 12"
  let ?m8 = "m\<lparr>m_pos := 8\<rparr>"
  let ?s8 = "self\<lparr>mmap := Some ?m8\<rparr>"
  have s: "mmap_seek m (int (length valid_signature)) = Inr ?m8"
    using a by (simp add: mmap_seek_def length_valid_signature)
  have "walk ?s8
      = (None, ?s8\<lparr>mmap := Some (?m8\<lparr>m_pos := mmap_size ?m8\<rparr>), chunks := chunks ?s8 @ [None]\<rparr>)"
    using a by (intro walk_short_lenient) (simp_all add: mmap_size_def)
  then have w: "walk ?s8 = (None, self\<lparr>mmap := Some (m\<lparr>m_pos := mmap_size m\<rparr>), chunks := [None]\<rparr>)"
    using a by (simp add: mmap_size_def)
  show "process_chunks self
        = (Inr True, self\<lparr>mmap := Some (m\<lparr>m_pos := 0\<rparr>), chunks := [None]\<rparr>)"
    using a by (simp add: process_chunks_def s w mmap_seek_0)
qed

theorem process_chunks_appends_None_witness:
  "extract_chunk ((loaded False (valid_signature @ [CHR 0x00]))
       \<lparr>mmap := Some \<lparr>m_data = valid_signature @ [CHR 0x00], m_pos = 8\<rparr>\<rparr>) 8 False
     = (Inr None, (loaded False (valid_signature @ [CHR 0x00]))
         \<lparr>mmap := Some \<lparr>m_data = valid_signature @ [CHR 0x00], m_pos = 9\<rparr>\<rparr>)
   \<and> walk ((loaded False (valid_signature @ [CHR 0x00]))
       \<lparr>mmap := Some \<lparr>m_data = valid_signature @ [CHR 0x00], m_pos = 8\<rparr>\<rparr>)
     = (None, (loaded False (valid_signature @ [CHR 0x00]))
         \<lparr>mmap := Some \<lparr>m_data = valid_signature @ [CHR 0x00], m_pos = 9\<rparr>, chunks := [None]\<rparr>)
   \<and> process_chunks (loaded False (valid_signature @ [CHR 0x00]))
     = (Inr True, (loaded False (valid_signature @ [CHR 0x00]))\<lparr>chunks := [None]\<rparr>)"
proof -
  let ?buf = "valid_signature @ [CHR 0x00]"
  let ?s = "loaded False ?buf"
  let ?m8 = "\<lparr>m_data = ?buf, m_pos = 8\<rparr>"
  let ?s8 = "?s\<lparr>mmap := Some ?m8\<rparr>"
  have l: "?s = \<lparr>strict = False, mmap = Some \<lparr>m_data = ?buf, m_pos = 0\<rparr>,
        raw = Some ?buf, size_f = Some (length ?buf),
        file_header = Some (take 8 ?buf), chunks = []\<rparr>"
    by (simp add: loaded_nonempty)
  have h8: "\<not> strict ?s8 \<and> mmap ?s8 = Some ?m8 \<and> m_pos ?m8 < mmap_size ?m8 \<and>
      mmap_size ?m8 < m_pos ?m8 + 4"
    by (simp add: l mmap_size_def length_valid_signature)
  have h0: "\<not> strict ?s \<and> mmap ?s = Some \<lparr>m_data = ?buf, m_pos = 0\<rparr> \<and> chunks ?s = [] \<and>
       8 < mmap_size \<lparr>m_data = ?buf, m_pos = 0\<rparr> \<and> mmap_size \<lparr>m_data = ?buf, m_pos = 0\<rparr> < 12"
    by (simp add: l mmap_size_def length_valid_signature)
  note t8 = process_chunks_appends_None [of ?s8 ?m8]
  note t0 = process_chunks_appends_None [of ?s "\<lparr>m_data = ?buf, m_pos = 0\<rparr>"]
  have a: "extract_chunk ?s8 (int (mmap_tell ?m8)) False
        = (Inr None, ?s8\<lparr>mmap := Some (?m8\<lparr>m_pos := mmap_size ?m8\<rparr>)\<rparr>)"
    using t8 h8 by blast
  then have "fst (extract_chunk ?s8 (int (mmap_tell ?m8)) False) = Inr None"
    by simp
  then have b: "walk ?s8
        = (None, ?s8\<lparr>mmap := Some (?m8\<lparr>m_pos := mmap_size ?m8\<rparr>), chunks := chunks ?s8 @ [None]\<rparr>)"
    using t8 h8 by blast
  have c: "process_chunks ?s
        = (Inr True, ?s\<lparr>mmap := Some (\<lparr>m_data = ?buf, m_pos = 0\<rparr>\<lparr>m_pos := 0\<rparr>), chunks := [None]\<rparr>)"
    using t0 h0 by blast
  have a': "extract_chunk ?s8 8 False = (Inr None, ?s\<lparr>mmap := Some \<lparr>m_data = ?buf, m_pos = 9\<rparr>\<rparr>)"
    using a by (simp add: mmap_tell_def mmap_size_def length_valid_signature)
  have b': "walk ?s8 = (None, ?s\<lparr>mmap := Some \<lparr>m_data = ?buf, m_pos = 9\<rparr>, chunks := [None]\<rparr>)"
    using b by (simp add: l mmap_size_def length_valid_signature)
  have c': "process_chunks ?s = (Inr True, ?s\<lparr>chunks := [None]\<rparr>)"
    using c by (simp add: l)
  show ?thesis
    using a' b' c' by simp
qed

subsection \<open>C10: the position after \<open>process_chunks\<close>\<close>

text \<open>
  Claim C10, as written: after every call of \<open>process_chunks\<close> the position is 0. On a
  loaded file of 5 bytes a caller who used \<open>extract_chunk\<close> with \<open>reset_pos=False\<close>
  stands at 5; \<open>process_chunks\<close> then raises from its first \<open>seek\<close>, before the \<open>try\<close>
  block, in lenient and in strict mode, and the position stays 5.
\<close>

theorem process_chunks_cursor_counterexample:
  "cursor (snd (extract_chunk (loaded False ''abcde'') 1 False)) = Some 5
   \<and> fst (process_chunks (snd (extract_chunk (loaded False ''abcde'') 1 False))) = Inl ValueError
   \<and> cursor (snd (process_chunks (snd (extract_chunk (loaded False ''abcde'') 1 False)))) = Some 5
   \<and> cursor (snd (extract_chunk (loaded True ''abcde'') 5 False)) = Some 5
   \<and> fst (process_chunks (snd (extract_chunk (loaded True ''abcde'') 5 False))) = Inl ValueError
   \<and> cursor (snd (process_chunks (snd (extract_chunk (loaded True ''abcde'') 5 False)))) = Some 5"
  by code_simp

text \<open>
  Claim C10, amended: on a loaded buffer of at least 8 bytes the position is 0 after
  every call of \<open>process_chunks\<close>, whether it returns or raises; and on every loaded
  buffer the position is 0 after every call of \<open>extract_chunk\<close> with \<open>reset_pos\<close>
  enabled.
\<close>

theorem cursor_reset_after_calls:
  assumes "mmap self = Some m"
  shows "(8 \<le> mmap_size m \<longrightarrow> cursor (snd (process_chunks self)) = Some 0)
     \<and> cursor (snd (extract_chunk self off True)) = Some 0"
proof (intro conjI impI)
  assume "8 \<le> mmap_size m"
  from process_chunks_loaded [OF assms this]
  obtain cs where "snd (process_chunks self)
        = self\<lparr>mmap := Some (m\<lparr>m_pos := 0\<rparr>), chunks := chunks self @ cs\<rparr>"
    by blast
  then show "cursor (snd (process_chunks self)) = Some 0"
    by (simp add: cursor_def mmap_tell_def)
next
  show "cursor (snd (extract_chunk self off True)) = Some 0"
    using assms by (rule extract_chunk_reset_cursor)
qed

theorem cursor_reset_after_calls_witness:
  "fst (process_chunks
      (loaded True (valid_signature @ [CHR 0x00, CHR 0x00, CHR 0x00, CHR 0x00] @ ''zzZZ'' @ ''AB12'')))
     = Inl AssertionError
   \<and> cursor (snd (process_chunks
      (loaded True (valid_signature @ [CHR 0x00, CHR 0x00, CHR 0x00, CHR 0x00] @ ''zzZZ'' @ ''AB12''))))
     = Some 0
   \<and> cursor (snd (extract_chunk
      (loaded True (valid_signature @ [CHR 0x00, CHR 0x00, CHR 0x00, CHR 0x00] @ ''zzZZ'' @ ''AB12''))
      8 True))
     = Some 0"
proof -
  let ?buf = "valid_signature @ [CHR 0x00, CHR 0x00, CHR 0x00, CHR 0x00] @ ''zzZZ'' @ ''AB12''"
  let ?m = "\<lparr>m_data = ?buf, m_pos = 0\<rparr>"
  have m: "mmap (loaded True ?buf) = Some ?m"
    by (simp add: loaded_nonempty)
  have z: "8 \<le> mmap_size ?m"
    by (simp add: mmap_size_def)
  have e: "fst (process_chunks (loaded True ?buf)) = Inl AssertionError"
    by code_simp
  show ?thesis
    using cursor_reset_after_calls [OF m, of 8] z e by simp
qed

end
